theory Spec2Isabelle
  imports Main
begin

section \<open>JavaScript values\<close>

text \<open>
  The values the history handles at run time: what \<open>JSON.parse\<close> returns, what the
  configuration service hands out, and the property reads on them. Numbers are the
  integers (no fractions, no NaN); \<open>JFunction\<close> stands for a method found on a prototype
  (only \<open>Array.prototype.entries\<close> arises).
\<close>

datatype js =
    JUndefined
  | JNull
  | JBool bool
  | JNumber int
  | JString string
  | JArray "js list"
  | JObject "(string \<times> js) list"
  | JFunction string

text \<open>
  \<open>TypeError\<close> is the JavaScript exception of a property read on \<open>null\<close> or
  \<open>undefined\<close> and of \<open>for ... of\<close> over a value that is not iterable. \<open>IllTyped\<close> is
  not an exception: it marks a run in which a parsed entry carries a key that is not a
  string, which the declared type \<open>ISerializedCache\<close> excludes and the model does not follow.
\<close>

datatype error = TypeError | IllTyped

fun typeof :: "js \<Rightarrow> string" where
  "typeof JUndefined = ''undefined''"
| "typeof JNull = ''object''"
| "typeof (JBool b) = ''boolean''"
| "typeof (JNumber n) = ''number''"
| "typeof (JString s) = ''string''"
| "typeof (JArray xs) = ''object''"
| "typeof (JObject kvs) = ''object''"
| "typeof (JFunction f) = ''function''"

text \<open>The condition of \<open>if (serialized)\<close>: JavaScript's truthiness.\<close>

fun truthy :: "js \<Rightarrow> bool" where
  "truthy JUndefined = False"
| "truthy JNull = False"
| "truthy (JBool b) = b"
| "truthy (JNumber n) = (n \<noteq> 0)"
| "truthy (JString s) = (s \<noteq> [])"
| "truthy (JArray xs) = True"
| "truthy (JObject kvs) = True"
| "truthy (JFunction f) = True"

text \<open>
  The property read \<open>v.name\<close>, for the three names the source reads (\<open>entries\<close>,
  \<open>key\<close>, \<open>value\<close>): own properties of an object, the method \<open>entries\<close> of an array,
  \<open>undefined\<close> on the other primitives, a TypeError on \<open>null\<close> and \<open>undefined\<close>.
\<close>

fun get_prop :: "js \<Rightarrow> string \<Rightarrow> error + js" where
  "get_prop JUndefined name = Inl TypeError"
| "get_prop JNull name = Inl TypeError"
| "get_prop (JObject kvs) name =
     Inr (case map_of kvs name of None \<Rightarrow> JUndefined | Some v \<Rightarrow> v)"
| "get_prop (JArray xs) name =
     Inr (if name = ''entries'' then JFunction ''entries'' else JUndefined)"
| "get_prop v name = Inr JUndefined"

text \<open>The values \<open>for (const entry of v)\<close> visits: the elements of an array, the
  characters of a string; anything else is not iterable.\<close>

fun iterate :: "js \<Rightarrow> error + js list" where
  "iterate (JArray xs) = Inr xs"
| "iterate (JString s) = Inr (map (\<lambda>c. JString [c]) s)"
| "iterate v = Inl TypeError"

section \<open>Constants of the module\<close>

definition Constants_DefaultHistoryLimit :: int where
  "Constants_DefaultHistoryLimit = 100"

definition StorageKeys_Keys :: string where
  "StorageKeys_Keys = ''terminal.history.keys''"

definition StorageKeys_Entries :: string where
  "StorageKeys_Entries = ''terminal.history.entries''"

definition StorageKeys_Timestamp :: string where
  "StorageKeys_Timestamp = ''terminal.history.timestamp''"

text \<open>The template strings \<open>`${StorageKeys.Entries}.${this._storageDataKey}`\<close> and
  \<open>`${StorageKeys.Timestamp}.${this._storageDataKey}`\<close> of \<open>_loadState\<close> and
  \<open>_saveState\<close>.\<close>

definition entriesKey :: "string \<Rightarrow> string" where
  "entriesKey storageDataKey = StorageKeys_Entries @ ''.'' @ storageDataKey"

definition timestampKey :: "string \<Rightarrow> string" where
  "timestampKey storageDataKey = StorageKeys_Timestamp @ ''.'' @ storageDataKey"

section \<open>The collaborators\<close>

subsection \<open>The storage service\<close>

text \<open>
  Modelled from the spec: the storage service (\<open>vs/platform/storage\<close>) is not among the
  sources. The spec gives its contract: \<open>get(key, scope)\<close> returns a string or
  nothing, \<open>getNumber(key, scope, default)\<close> a number, \<open>store\<close> takes a string or a
  number. Every call of the history uses the global scope, the only one modelled. A key
  that holds a value of the other kind is read as absent. When the service delivers its
  change notifications is not part of that contract: the listener is a step of its own
  (\<open>onDidChangeValue\<close> below), which \<open>storage_store\<close> does not run.
\<close>

datatype stored = SText string | SNumber int

type_synonym storage = "string \<Rightarrow> stored option"

definition storage_get :: "storage \<Rightarrow> string \<Rightarrow> string option" where
  "storage_get sto k = (case sto k of Some (SText s) \<Rightarrow> Some s | _ \<Rightarrow> None)"

definition storage_getNumber :: "storage \<Rightarrow> string \<Rightarrow> int \<Rightarrow> int" where
  "storage_getNumber sto k d = (case sto k of Some (SNumber n) \<Rightarrow> n | _ \<Rightarrow> d)"

definition storage_store :: "storage \<Rightarrow> string \<Rightarrow> stored \<Rightarrow> storage" where
  "storage_store sto k v = sto(k \<mapsto> v)"

subsection \<open>The bounded map\<close>

text \<open>
  Modelled from the spec: the class \<open>LRUCache\<close> (\<open>vs/base/common/map\<close>) is not among
  the sources. The spec's words: an ordered mapping from key to value bounded by a
  capacity limit; setting a key inserts or updates the entry and promotes it to
  most-recently-used, and evicts least-recently-used entries when the capacity is
  exceeded; setting the limit updates the bound and, if the current size exceeds it,
  evicts least-recently-used entries down to the bound; deleting an absent key is a
  no-op. The entries are kept from the least to the most recently used, the order in
  which \<open>entries()\<close> and \<open>forEach\<close> visit them.
\<close>

record ('k, 'v) LRUCache =
  items :: "('k \<times> 'v) list"
  limit :: int

definition LRUCache_new :: "int \<Rightarrow> ('k, 'v) LRUCache" where
  "LRUCache_new n = \<lparr>items = [], limit = n\<rparr>"

definition LRUCache_size :: "('k, 'v) LRUCache \<Rightarrow> nat" where
  "LRUCache_size c = length (items c)"

definition LRUCache_trim :: "('k, 'v) LRUCache \<Rightarrow> ('k, 'v) LRUCache" where
  "LRUCache_trim c =
     (if int (LRUCache_size c) > limit c
      then c\<lparr>items := drop (LRUCache_size c - nat (limit c)) (items c)\<rparr>
      else c)"

definition LRUCache_set :: "'k \<Rightarrow> 'v \<Rightarrow> ('k, 'v) LRUCache \<Rightarrow> ('k, 'v) LRUCache" where
  "LRUCache_set k v c =
     LRUCache_trim (c\<lparr>items := filter (\<lambda>e. fst e \<noteq> k) (items c) @ [(k, v)]\<rparr>)"

definition LRUCache_delete :: "'k \<Rightarrow> ('k, 'v) LRUCache \<Rightarrow> ('k, 'v) LRUCache" where
  "LRUCache_delete k c = c\<lparr>items := filter (\<lambda>e. fst e \<noteq> k) (items c)\<rparr>"

definition LRUCache_clear :: "('k, 'v) LRUCache \<Rightarrow> ('k, 'v) LRUCache" where
  "LRUCache_clear c = c\<lparr>items := []\<rparr>"

definition LRUCache_set_limit :: "int \<Rightarrow> ('k, 'v) LRUCache \<Rightarrow> ('k, 'v) LRUCache" where
  "LRUCache_set_limit n c = LRUCache_trim (c\<lparr>limit := n\<rparr>)"

definition LRUCache_entries :: "('k, 'v) LRUCache \<Rightarrow> ('k \<times> 'v) list" where
  "LRUCache_entries c = items c"

section \<open>TerminalPersistedHistory\<close>

text \<open>The fields of the class. \<open>T\<close>, the type of the values, is \<open>js\<close>: the values
  pass through \<open>JSON.stringify\<close> and \<open>JSON.parse\<close>.\<close>

record TerminalPersistedHistory =
  h_entries :: "(string, js) LRUCache"
  h_timestamp :: int
  h_isReady :: bool
  h_isStale :: bool
  h_storageDataKey :: string

text \<open>\<open>_getHistoryLimit\<close>; \<open>historyLimit\<close> is what the configuration service returns
  for the setting \<open>TerminalSettingId.ShellIntegrationCommandHistory\<close>.\<close>

definition getHistoryLimit :: "js \<Rightarrow> int" where
  "getHistoryLimit historyLimit =
     (if typeof historyLimit = ''number''
      then (case historyLimit of JNumber n \<Rightarrow> n | _ \<Rightarrow> Constants_DefaultHistoryLimit)
      else Constants_DefaultHistoryLimit)"

text \<open>The constructor: the field initialisers and \<open>new LRUCache(this._getHistoryLimit())\<close>.\<close>

definition new_TerminalPersistedHistory :: "string \<Rightarrow> js \<Rightarrow> TerminalPersistedHistory" where
  "new_TerminalPersistedHistory storageDataKey historyLimit =
     \<lparr>h_entries = LRUCache_new (getHistoryLimit historyLimit),
      h_timestamp = 0,
      h_isReady = False,
      h_isStale = True,
      h_storageDataKey = storageDataKey\<rparr>"

text \<open>The listener of \<open>onDidChangeConfiguration\<close>: \<open>affects\<close> is the answer of
  \<open>e.affectsConfiguration(TerminalSettingId.ShellIntegrationCommandHistory)\<close>,
  \<open>historyLimit\<close> the value of the setting at that moment.\<close>

definition onDidChangeConfiguration ::
  "bool \<Rightarrow> js \<Rightarrow> TerminalPersistedHistory \<Rightarrow> TerminalPersistedHistory" where
  "onDidChangeConfiguration affects historyLimit h =
     (if affects
      then h\<lparr>h_entries := LRUCache_set_limit (getHistoryLimit historyLimit) (h_entries h)\<rparr>
      else h)"

text \<open>The listener of \<open>onDidChangeValue\<close>; \<open>key\<close> is \<open>e.key\<close>.\<close>

definition onDidChangeValue :: "string \<Rightarrow> TerminalPersistedHistory \<Rightarrow> TerminalPersistedHistory" where
  "onDidChangeValue key h =
     (if key \<noteq> StorageKeys_Timestamp then h\<lparr>h_isStale := True\<rparr> else h)"

text \<open>The loop of \<open>_loadState\<close> over the parsed entries. A throw leaves the entries
  set so far in the cache.\<close>

fun load_entries ::
  "js list \<Rightarrow> TerminalPersistedHistory \<Rightarrow> error option \<times> TerminalPersistedHistory" where
  "load_entries [] h = (None, h)"
| "load_entries (entry # rest) h =
     (case get_prop entry ''key'' of
        Inl e \<Rightarrow> (Some e, h)
      | Inr k \<Rightarrow>
          (case get_prop entry ''value'' of
             Inl e \<Rightarrow> (Some e, h)
           | Inr v \<Rightarrow>
               (case k of
                  JString s \<Rightarrow> load_entries rest (h\<lparr>h_entries := LRUCache_set s v (h_entries h)\<rparr>)
                | _ \<Rightarrow> (Some IllTyped, h))))"

text \<open>\<open>_loadState\<close>. \<open>parse\<close> is \<open>JSON.parse\<close>, \<open>None\<close> where it throws.\<close>

definition loadState ::
  "(string \<Rightarrow> js option) \<Rightarrow> storage \<Rightarrow> TerminalPersistedHistory
     \<Rightarrow> error option \<times> TerminalPersistedHistory" where
  "loadState parse sto h =
     (let h1 = h\<lparr>h_timestamp := storage_getNumber sto (timestampKey (h_storageDataKey h)) 0\<rparr>
      in case storage_get sto (entriesKey (h_storageDataKey h)) of
           None \<Rightarrow> (None, h1)
         | Some raw \<Rightarrow>
             if length raw = 0 then (None, h1)
             else (case parse raw of
                     None \<Rightarrow> (None, h1)
                   | Some serialized \<Rightarrow>
                       if truthy serialized
                       then (case get_prop serialized ''entries'' of
                               Inl e \<Rightarrow> (Some e, h1)
                             | Inr es \<Rightarrow>
                                 (case iterate es of
                                    Inl e \<Rightarrow> (Some e, h1)
                                  | Inr entries \<Rightarrow> load_entries entries h1))
                       else (None, h1)))"

text \<open>\<open>_ensureUpToDate\<close>. When \<open>_loadState\<close> throws, the flags keep their values.\<close>

definition ensureUpToDate ::
  "(string \<Rightarrow> js option) \<Rightarrow> storage \<Rightarrow> TerminalPersistedHistory
     \<Rightarrow> error option \<times> TerminalPersistedHistory" where
  "ensureUpToDate parse sto h =
     (case (if \<not> h_isReady h
            then (case loadState parse sto h of
                    (Some e, h1) \<Rightarrow> (Some e, h1)
                  | (None, h1) \<Rightarrow> (None, h1\<lparr>h_isReady := True\<rparr>))
            else (None, h)) of
        (Some e, h2) \<Rightarrow> (Some e, h2)
      | (None, h2) \<Rightarrow> (None, if h_isStale h2 then h2\<lparr>h_isStale := False\<rparr> else h2))"

text \<open>The record \<open>{ entries: [{ key, value }, ...] }\<close> that \<open>_saveState\<close> builds.\<close>

definition serialized_of :: "(string \<times> js) list \<Rightarrow> js" where
  "serialized_of es =
     JObject [(''entries'', JArray (map (\<lambda>(k, v). JObject [(''key'', JString k), (''value'', v)]) es))]"

text \<open>\<open>_saveState\<close>. \<open>stringify\<close> is \<open>JSON.stringify\<close>, \<open>now\<close> the value of
  \<open>Date.now()\<close>.\<close>

definition saveState ::
  "(js \<Rightarrow> string) \<Rightarrow> int \<Rightarrow> storage \<Rightarrow> TerminalPersistedHistory
     \<Rightarrow> TerminalPersistedHistory \<times> storage" where
  "saveState stringify now sto h =
     (let serialized = serialized_of (LRUCache_entries (h_entries h));
          sto1 = storage_store sto (entriesKey (h_storageDataKey h)) (SText (stringify serialized));
          h1 = h\<lparr>h_timestamp := now\<rparr>;
          sto2 = storage_store sto1 (timestampKey (h_storageDataKey h1)) (SNumber (h_timestamp h1))
      in (h1, sto2))"

text \<open>The getter \<open>entries\<close> and the three mutations. Each returns the error thrown, if
  any, with the instance and the store as the call leaves them.\<close>

definition get_entries ::
  "(string \<Rightarrow> js option) \<Rightarrow> storage \<Rightarrow> TerminalPersistedHistory
     \<Rightarrow> (error + (string \<times> js) list) \<times> TerminalPersistedHistory" where
  "get_entries parse sto h =
     (case ensureUpToDate parse sto h of
        (Some e, h1) \<Rightarrow> (Inl e, h1)
      | (None, h1) \<Rightarrow> (Inr (LRUCache_entries (h_entries h1)), h1))"

definition add ::
  "(string \<Rightarrow> js option) \<Rightarrow> (js \<Rightarrow> string) \<Rightarrow> int \<Rightarrow> string \<Rightarrow> js
     \<Rightarrow> TerminalPersistedHistory \<times> storage
     \<Rightarrow> error option \<times> TerminalPersistedHistory \<times> storage" where
  "add parse stringify now key v w =
     (case ensureUpToDate parse (snd w) (fst w) of
        (Some e, h1) \<Rightarrow> (Some e, h1, snd w)
      | (None, h1) \<Rightarrow>
          (None, saveState stringify now (snd w)
                   (h1\<lparr>h_entries := LRUCache_set key v (h_entries h1)\<rparr>)))"

definition remove ::
  "(string \<Rightarrow> js option) \<Rightarrow> (js \<Rightarrow> string) \<Rightarrow> int \<Rightarrow> string
     \<Rightarrow> TerminalPersistedHistory \<times> storage
     \<Rightarrow> error option \<times> TerminalPersistedHistory \<times> storage" where
  "remove parse stringify now key w =
     (case ensureUpToDate parse (snd w) (fst w) of
        (Some e, h1) \<Rightarrow> (Some e, h1, snd w)
      | (None, h1) \<Rightarrow>
          (None, saveState stringify now (snd w)
                   (h1\<lparr>h_entries := LRUCache_delete key (h_entries h1)\<rparr>)))"

definition clear ::
  "(string \<Rightarrow> js option) \<Rightarrow> (js \<Rightarrow> string) \<Rightarrow> int
     \<Rightarrow> TerminalPersistedHistory \<times> storage
     \<Rightarrow> error option \<times> TerminalPersistedHistory \<times> storage" where
  "clear parse stringify now w =
     (case ensureUpToDate parse (snd w) (fst w) of
        (Some e, h1) \<Rightarrow> (Some e, h1, snd w)
      | (None, h1) \<Rightarrow>
          (None, saveState stringify now (snd w)
                   (h1\<lparr>h_entries := LRUCache_clear (h_entries h1)\<rparr>)))"

section \<open>Sequences of calls\<close>

text \<open>The three mutations of the interface \<open>ITerminalPersistedHistory\<close>, and a caller
  that makes one call after the other. Each call comes with the value \<open>Date.now()\<close>
  returns during it. A call that throws leaves the instance and the store as they are
  at the throw, and the caller goes on.\<close>

datatype call = Add string js | Remove string | Clear

fun perform ::
  "(string \<Rightarrow> js option) \<Rightarrow> (js \<Rightarrow> string) \<Rightarrow> int \<Rightarrow> call
     \<Rightarrow> TerminalPersistedHistory \<times> storage
     \<Rightarrow> error option \<times> TerminalPersistedHistory \<times> storage" where
  "perform parse stringify now (Add k v) w = add parse stringify now k v w"
| "perform parse stringify now (Remove k) w = remove parse stringify now k w"
| "perform parse stringify now Clear w = clear parse stringify now w"

fun run ::
  "(string \<Rightarrow> js option) \<Rightarrow> (js \<Rightarrow> string) \<Rightarrow> (int \<times> call) list
     \<Rightarrow> TerminalPersistedHistory \<times> storage \<Rightarrow> TerminalPersistedHistory \<times> storage" where
  "run parse stringify [] w = w"
| "run parse stringify ((now, c) # cs) w = run parse stringify cs (snd (perform parse stringify now c w))"

text \<open>A sequence of \<open>add\<close> calls, each with its time, key and value.\<close>

definition add_calls :: "(int \<times> string \<times> js) list \<Rightarrow> (int \<times> call) list" where
  "add_calls adds = map (\<lambda>(now, k, v). (now, Add k v)) adds"

text \<open>
  From the spec's words "least recently touched": of a sequence of touches \<open>(key,
  value)\<close>, the last touch of every key, in the order of these last touches. Its head
  is the least recently touched key, its last element the most recently touched one.
\<close>

fun last_touches :: "('k \<times> 'v) list \<Rightarrow> ('k \<times> 'v) list" where
  "last_touches [] = []"
| "last_touches (x # xs) =
     (if fst x \<in> fst ` set xs then last_touches xs else x # last_touches xs)"

section \<open>A reference JSON codec\<close>

text \<open>
  \<open>JSON.parse\<close> and \<open>JSON.stringify\<close> belong to the JavaScript runtime, so the
  operations above take them as parameters. To run the operations on concrete inputs,
  this section gives one pair of functions of that kind: a printer without white space,
  as \<open>JSON.stringify\<close> writes, and a reader of what it prints (integers, strings
  with the escapes of the double quote and of the backslash, arrays, objects; a member
  written twice keeps its last value). What JSON cannot express (\<open>undefined\<close>, a
  function) is written \<open>null\<close> in an array and left out of an object.
\<close>

definition digit_char :: "nat \<Rightarrow> char" where
  "digit_char d = ''0123456789'' ! d"

fun show_nat :: "nat \<Rightarrow> string" where
  "show_nat n = (if n < 10 then [digit_char n] else show_nat (n div 10) @ [digit_char (n mod 10)])"

declare show_nat.simps [simp del]

definition show_int :: "int \<Rightarrow> string" where
  "show_int i = (if i < 0 then CHR ''-'' # show_nat (nat (- i)) else show_nat (nat i))"

fun escape :: "string \<Rightarrow> string" where
  "escape [] = []"
| "escape (c # cs) =
     (if c = CHR 0x22 \<or> c = CHR 0x5C then CHR 0x5C # c # escape cs else c # escape cs)"

definition quote :: "string \<Rightarrow> string" where
  "quote s = CHR 0x22 # escape s @ [CHR 0x22]"

fun commas :: "string list \<Rightarrow> string" where
  "commas [] = []"
| "commas [s] = s"
| "commas (s # t # ss) = s @ CHR '','' # commas (t # ss)"

fun printable :: "js \<Rightarrow> bool" where
  "printable JUndefined = False"
| "printable (JFunction f) = False"
| "printable v = True"

fun JSON_stringify :: "js \<Rightarrow> string" where
  "JSON_stringify JUndefined = ''null''"
| "JSON_stringify JNull = ''null''"
| "JSON_stringify (JBool b) = (if b then ''true'' else ''false'')"
| "JSON_stringify (JNumber n) = show_int n"
| "JSON_stringify (JString s) = quote s"
| "JSON_stringify (JArray xs) = ''['' @ commas (map JSON_stringify xs) @ '']''"
| "JSON_stringify (JObject kvs) =
     ''{'' @ commas (map (\<lambda>(k, v). quote k @ '':'' @ JSON_stringify v)
                      (filter (\<lambda>(k, v). printable v) kvs)) @ ''}''"
| "JSON_stringify (JFunction f) = ''null''"

definition is_digit :: "char \<Rightarrow> bool" where
  "is_digit c = (c \<in> set ''0123456789'')"

definition digit_val :: "char \<Rightarrow> nat" where
  "digit_val c = of_char c - 48"

definition read_nat :: "string \<Rightarrow> nat" where
  "read_nat ds = foldl (\<lambda>n d. 10 * n + digit_val d) 0 ds"

fun strip_prefix :: "string \<Rightarrow> string \<Rightarrow> string option" where
  "strip_prefix [] s = Some s"
| "strip_prefix (p # ps) [] = None"
| "strip_prefix (p # ps) (c # cs) = (if p = c then strip_prefix ps cs else None)"

fun read_chars :: "string \<Rightarrow> (string \<times> string) option" where
  "read_chars [] = None"
| "read_chars (c # cs) =
     (if c = CHR 0x22 then Some ([], cs)
      else if c = CHR 0x5C then
        (case cs of
           [] \<Rightarrow> None
         | d # ds \<Rightarrow>
             if d = CHR 0x22 \<or> d = CHR 0x5C
             then map_option (\<lambda>(s, r). (d # s, r)) (read_chars ds) else None)
      else map_option (\<lambda>(s, r). (c # s, r)) (read_chars cs))"

definition put_member :: "string \<Rightarrow> js \<Rightarrow> (string \<times> js) list \<Rightarrow> (string \<times> js) list" where
  "put_member k v kvs =
     (if k \<in> fst ` set kvs then map (\<lambda>(k', v'). if k' = k then (k', v) else (k', v')) kvs
      else kvs @ [(k, v)])"

fun read_value :: "nat \<Rightarrow> string \<Rightarrow> (js \<times> string) option"
and read_elements :: "nat \<Rightarrow> js list \<Rightarrow> string \<Rightarrow> (js \<times> string) option"
and read_members :: "nat \<Rightarrow> (string \<times> js) list \<Rightarrow> string \<Rightarrow> (js \<times> string) option" where
  "read_value 0 s = None"
| "read_value (Suc n) [] = None"
| "read_value (Suc n) (c # cs) =
     (if c = CHR ''n'' then map_option (Pair JNull) (strip_prefix ''ull'' cs)
      else if c = CHR ''t'' then map_option (Pair (JBool True)) (strip_prefix ''rue'' cs)
      else if c = CHR ''f'' then map_option (Pair (JBool False)) (strip_prefix ''alse'' cs)
      else if c = CHR 0x22 then map_option (\<lambda>(s, r). (JString s, r)) (read_chars cs)
      else if c = CHR ''-'' then
        (if takeWhile is_digit cs = [] then None
         else Some (JNumber (- int (read_nat (takeWhile is_digit cs))), dropWhile is_digit cs))
      else if is_digit c then
        Some (JNumber (int (read_nat (takeWhile is_digit (c # cs)))), dropWhile is_digit cs)
      else if c = CHR ''['' then
        (case cs of
           [] \<Rightarrow> None
         | d # ds \<Rightarrow> if d = CHR '']'' then Some (JArray [], ds) else read_elements n [] cs)
      else if c = CHR ''{'' then
        (case cs of
           [] \<Rightarrow> None
         | d # ds \<Rightarrow> if d = CHR ''}'' then Some (JObject [], ds) else read_members n [] cs)
      else None)"
| "read_elements 0 acc s = None"
| "read_elements (Suc n) acc s =
     (case read_value n s of
        None \<Rightarrow> None
      | Some (v, r) \<Rightarrow>
          (case r of
             [] \<Rightarrow> None
           | d # ds \<Rightarrow>
               if d = CHR '','' then read_elements n (acc @ [v]) ds
               else if d = CHR '']'' then Some (JArray (acc @ [v]), ds)
               else None))"
| "read_members 0 acc s = None"
| "read_members (Suc n) acc s =
     (case s of
        [] \<Rightarrow> None
      | q # s1 \<Rightarrow>
          if q \<noteq> CHR 0x22 then None
          else (case read_chars s1 of
                  None \<Rightarrow> None
                | Some (k, s2) \<Rightarrow>
                    (case s2 of
                       [] \<Rightarrow> None
                     | c # s3 \<Rightarrow>
                         if c \<noteq> CHR '':'' then None
                         else (case read_value n s3 of
                                 None \<Rightarrow> None
                               | Some (v, r) \<Rightarrow>
                                   (case r of
                                      [] \<Rightarrow> None
                                    | d # ds \<Rightarrow>
                                        if d = CHR '','' then read_members n (put_member k v acc) ds
                                        else if d = CHR ''}'' then Some (JObject (put_member k v acc), ds)
                                        else None)))))"

definition JSON_parse :: "string \<Rightarrow> js option" where
  "JSON_parse s =
     (case read_value (Suc (length s)) s of
        Some (v, []) \<Rightarrow> Some v
      | _ \<Rightarrow> None)"

section \<open>Example data\<close>

text \<open>A hydrated instance holding \<open>a\<close>, \<open>b\<close>, \<open>c\<close> (\<open>c\<close> most recent) under the
  limit 3, with the stale flag set.\<close>

definition example_history :: TerminalPersistedHistory where
  "example_history =
     \<lparr>h_entries = \<lparr>items = [(''a'', JNumber 1), (''b'', JNumber 2), (''c'', JNumber 3)], limit = 3\<rparr>,
      h_timestamp = 7, h_isReady = True, h_isStale = True, h_storageDataKey = ''commands''\<rparr>"

text \<open>Three entries, and the instance and store a caller reaches with the reference
  codec after \<open>add("a", 1); add("b", 2)\<close> on a new instance under the limit 2 and an
  empty store.\<close>

definition example_entries :: "(string \<times> js) list" where
  "example_entries = [(''a'', JNumber 1), (''b'', JNumber 2), (''c'', JNumber 3)]"

definition example_world :: "TerminalPersistedHistory \<times> storage" where
  "example_world =
     run JSON_parse JSON_stringify [(1, Add ''a'' (JNumber 1)), (2, Add ''b'' (JNumber 2))]
       (new_TerminalPersistedHistory ''commands'' (JNumber 2), Map.empty)"

section \<open>Invariants of the instance\<close>

text \<open>What every call preserves: the limit, the bound on the number of entries, the
  keys being distinct, the storage data key.\<close>

definition well_formed :: "int \<Rightarrow> string \<Rightarrow> TerminalPersistedHistory \<Rightarrow> bool" where
  "well_formed n d h =
     (limit (h_entries h) = n \<and> length (items (h_entries h)) \<le> nat n
      \<and> distinct (map fst (items (h_entries h))) \<and> h_storageDataKey h = d)"

subsection \<open>The bounded map\<close>

lemma limit_trim [simp]: "limit (LRUCache_trim c) = limit c"
  by (simp add: LRUCache_trim_def)

lemma items_trim: "items (LRUCache_trim c) = drop (length (items c) - nat (limit c)) (items c)"
  by (simp add: LRUCache_trim_def LRUCache_size_def)

lemma limit_set [simp]: "limit (LRUCache_set k v c) = limit c"
  by (simp add: LRUCache_set_def)

lemma items_set:
  "items (LRUCache_set k v c) =
     drop (Suc (length (filter (\<lambda>e. fst e \<noteq> k) (items c))) - nat (limit c))
       (filter (\<lambda>e. fst e \<noteq> k) (items c) @ [(k, v)])"
  by (simp add: LRUCache_set_def items_trim)

lemma length_items_set: "length (items (LRUCache_set k v c)) \<le> nat (limit c)"
  by (simp add: LRUCache_set_def items_trim)

lemma distinct_drop_keys: "distinct (map fst xs) \<Longrightarrow> distinct (map fst (drop n xs))"
  by (simp add: drop_map[symmetric] distinct_drop del: drop_map)

lemma distinct_filter_keys: "distinct (map fst xs) \<Longrightarrow> distinct (map fst (filter P xs))"
  by (simp add: distinct_map_filter)

lemma distinct_items_trim:
  "distinct (map fst (items c)) \<Longrightarrow> distinct (map fst (items (LRUCache_trim c)))"
  by (simp add: items_trim distinct_drop_keys)

lemma distinct_items_set:
  "distinct (map fst (items c)) \<Longrightarrow> distinct (map fst (items (LRUCache_set k v c)))"
  unfolding LRUCache_set_def
  by (rule distinct_items_trim) (auto simp: distinct_map_filter)

lemma load_entries_well_formed:
  "load_entries es h = (r, h') \<Longrightarrow> well_formed n d h \<Longrightarrow> well_formed n d h'"
proof (induction es arbitrary: h)
  case Nil
  then show ?case by simp
next
  case (Cons entry rest)
  show ?case
  proof (cases "get_prop entry ''key''")
    case (Inl e)
    with Cons.prems show ?thesis by simp
  next
    case k: (Inr k)
    show ?thesis
    proof (cases "get_prop entry ''value''")
      case (Inl e)
      with Cons.prems k show ?thesis by simp
    next
      case v: (Inr v)
      show ?thesis
      proof (cases k)
        case (JString s)
        with Cons.prems k v
        have step: "load_entries rest (h\<lparr>h_entries := LRUCache_set s v (h_entries h)\<rparr>) = (r, h')"
          by simp
        have "well_formed n d (h\<lparr>h_entries := LRUCache_set s v (h_entries h)\<rparr>)"
          using Cons.prems(2) length_items_set[of s v "h_entries h"]
          by (simp add: well_formed_def distinct_items_set)
        from Cons.IH[OF step this] show ?thesis .
      qed (use Cons.prems k v in simp_all)
    qed
  qed
qed


lemma loadState_cases:
  assumes "loadState parse sto h = (r, h')"
  obtains
    (skipped) "r = None"
      "h' = h\<lparr>h_timestamp := storage_getNumber sto (timestampKey (h_storageDataKey h)) 0\<rparr>"
      "storage_get sto (entriesKey (h_storageDataKey h)) = None
       \<or> storage_get sto (entriesKey (h_storageDataKey h)) = Some []
       \<or> (\<exists>raw. storage_get sto (entriesKey (h_storageDataKey h)) = Some raw
             \<and> (parse raw = None \<or> (\<exists>v. parse raw = Some v \<and> \<not> truthy v)))"
  | (thrown) e where "r = Some e"
      "h' = h\<lparr>h_timestamp := storage_getNumber sto (timestampKey (h_storageDataKey h)) 0\<rparr>"
  | (looped) raw serialized es entries where
      "storage_get sto (entriesKey (h_storageDataKey h)) = Some raw" "raw \<noteq> []"
      "parse raw = Some serialized" "truthy serialized"
      "get_prop serialized ''entries'' = Inr es" "iterate es = Inr entries"
      "load_entries entries
         (h\<lparr>h_timestamp := storage_getNumber sto (timestampKey (h_storageDataKey h)) 0\<rparr>) = (r, h')"
  using assms unfolding loadState_def Let_def
  by (auto split: option.splits if_splits sum.splits)

lemma loadState_well_formed:
  assumes "loadState parse sto h = (r, h')" and "well_formed n d h"
  shows "well_formed n d h'"
  using assms(1)
proof (cases rule: loadState_cases)
  case looped
  have "well_formed n d
          (h\<lparr>h_timestamp := storage_getNumber sto (timestampKey (h_storageDataKey h)) 0\<rparr>)"
    using assms(2) by (simp add: well_formed_def)
  from load_entries_well_formed[OF looped(7) this] show ?thesis .
qed (use assms(2) in \<open>simp_all add: well_formed_def\<close>)

lemma unstale: "\<not> h_isStale h \<Longrightarrow> h\<lparr>h_isStale := False\<rparr> = h"
  by (cases h) simp

lemma ensureUpToDate_ready:
  "h_isReady h \<Longrightarrow> ensureUpToDate parse sto h = (None, h\<lparr>h_isStale := False\<rparr>)"
  by (simp add: ensureUpToDate_def unstale)

lemma ensureUpToDate_fresh:
  "\<not> h_isReady h \<Longrightarrow>
     ensureUpToDate parse sto h =
       (case loadState parse sto h of
          (Some e, h1) \<Rightarrow> (Some e, h1)
        | (None, h1) \<Rightarrow> (None, h1\<lparr>h_isReady := True, h_isStale := False\<rparr>))"
  by (auto simp: ensureUpToDate_def unstale split: prod.splits option.splits)

lemma ensureUpToDate_well_formed:
  assumes "ensureUpToDate parse sto h = (r, h')" and "well_formed n d h"
  shows "well_formed n d h'"
proof (cases "h_isReady h")
  case True
  with assms show ?thesis by (auto simp: ensureUpToDate_ready well_formed_def)
next
  case False
  obtain r1 h1 where l: "loadState parse sto h = (r1, h1)" by (cases "loadState parse sto h")
  from loadState_well_formed[OF l assms(2)] have "well_formed n d h1" .
  with assms(1) False l show ?thesis
    by (auto simp: ensureUpToDate_fresh well_formed_def split: option.splits)
qed

lemma ensureUpToDate_done:
  assumes "ensureUpToDate parse sto h = (None, h')"
  shows "h_isReady h' \<and> \<not> h_isStale h'"
proof (cases "h_isReady h")
  case True
  with assms show ?thesis by (auto simp: ensureUpToDate_ready)
next
  case False
  with assms show ?thesis
    by (auto simp: ensureUpToDate_fresh split: prod.splits option.splits)
qed

lemma saveState_fst: "fst (saveState stringify now sto h) = h\<lparr>h_timestamp := now\<rparr>"
  by (simp add: saveState_def Let_def)

lemma saveState_snd:
  "snd (saveState stringify now sto h) =
     (sto(entriesKey (h_storageDataKey h) \<mapsto>
            SText (stringify (serialized_of (LRUCache_entries (h_entries h)))),
          timestampKey (h_storageDataKey h) \<mapsto> SNumber now))"
  by (simp add: saveState_def Let_def storage_store_def)

lemma keys_differ: "entriesKey d \<noteq> timestampKey d"
  by (simp add: entriesKey_def timestampKey_def StorageKeys_Entries_def StorageKeys_Timestamp_def)

lemma perform_well_formed:
  assumes "well_formed n d (fst w)"
  shows "well_formed n d (fst (snd (perform parse stringify now c w)))"
proof -
  obtain r h1 where u: "ensureUpToDate parse (snd w) (fst w) = (r, h1)"
    by (cases "ensureUpToDate parse (snd w) (fst w)")
  from ensureUpToDate_well_formed[OF u assms] have wf: "well_formed n d h1" .
  show ?thesis
  proof (cases r)
    case (Some e)
    with u wf show ?thesis by (cases c) (simp_all add: add_def remove_def clear_def)
  next
    case None
    show ?thesis
    proof (cases c)
      case (Add k v)
      with None u wf length_items_set[of k v "h_entries h1"] show ?thesis
        by (simp add: add_def saveState_fst well_formed_def distinct_items_set)
    next
      case (Remove k)
      have "length (filter (\<lambda>e. fst e \<noteq> k) (items (h_entries h1))) \<le> length (items (h_entries h1))"
        by simp
      with Remove None u wf show ?thesis
        by (simp add: remove_def saveState_fst well_formed_def LRUCache_delete_def
            distinct_filter_keys del: length_filter_le)
    next
      case Clear
      with None u wf show ?thesis
        by (simp add: clear_def saveState_fst well_formed_def LRUCache_clear_def)
    qed
  qed
qed

lemma run_well_formed:
  "well_formed n d (fst w) \<Longrightarrow> well_formed n d (fst (run parse stringify cs w))"
proof (induction cs arbitrary: w)
  case Nil
  then show ?case by simp
next
  case (Cons a cs)
  obtain now c where a: "a = (now, c)" by (cases a)
  from Cons.prems have "well_formed n d (fst (snd (perform parse stringify now c w)))"
    by (rule perform_well_formed)
  from Cons.IH[OF this] a show ?case by simp
qed

lemma new_well_formed:
  "well_formed (getHistoryLimit cfg) d (new_TerminalPersistedHistory d cfg)"
  by (simp add: well_formed_def new_TerminalPersistedHistory_def LRUCache_new_def)

subsection \<open>Loading a record that \<open>_saveState\<close> wrote\<close>

lemma loadState_serialized:
  assumes "storage_get sto (entriesKey (h_storageDataKey h)) = Some raw" and "raw \<noteq> []"
    and "parse raw = Some (serialized_of es)"
  shows "loadState parse sto h =
           load_entries (map (\<lambda>(k, v). JObject [(''key'', JString k), (''value'', v)]) es)
             (h\<lparr>h_timestamp := storage_getNumber sto (timestampKey (h_storageDataKey h)) 0\<rparr>)"
  using assms by (simp add: loadState_def serialized_of_def)

lemma load_entries_serialized:
  "load_entries (map (\<lambda>(k, v). JObject [(''key'', JString k), (''value'', v)]) es) h =
     (None, h\<lparr>h_entries := fold (\<lambda>(k, v). LRUCache_set k v) es (h_entries h)\<rparr>)"
proof (induction es arbitrary: h)
  case Nil
  show ?case by simp
next
  case (Cons e es)
  obtain k v where e: "e = (k, v)" by (cases e)
  show ?case by (simp add: e Cons.IH)
qed

lemma drop_tail_append:
  "drop (length (drop (length zs - n) zs @ xs) - n) (drop (length zs - n) zs @ xs) =
     drop (length (zs @ xs) - n) (zs @ xs)"
  by (cases "length zs \<le> n") (auto simp: add.commute)

lemma distinct_drop_append: "distinct (xs @ ys) \<Longrightarrow> distinct (drop n xs @ ys)"
  by (auto dest: in_set_dropD)

lemma distinct_keys_drop_append:
  "distinct (map fst (zs @ es)) \<Longrightarrow> distinct (map fst (drop n zs @ es))"
  using distinct_drop_append[of "map fst zs" "map fst es" n] by (simp add: drop_map)

lemma fold_set_distinct:
  "distinct (map fst (items c @ es)) \<Longrightarrow> length (items c) \<le> nat (limit c) \<Longrightarrow>
     items (fold (\<lambda>(k, v). LRUCache_set k v) es c) =
       drop (length (items c @ es) - nat (limit c)) (items c @ es)
     \<and> limit (fold (\<lambda>(k, v). LRUCache_set k v) es c) = limit c"
proof (induction es arbitrary: c)
  case Nil
  then show ?case by simp
next
  case (Cons e es)
  obtain k v where e: "e = (k, v)" by (cases e)
  let ?c = "LRUCache_set k v c"
  from Cons.prems e have fresh: "filter (\<lambda>x. fst x \<noteq> k) (items c) = items c"
    by (auto simp: filter_id_conv)
  have it: "items ?c = drop (length (items c @ [(k, v)]) - nat (limit c)) (items c @ [(k, v)])"
    unfolding items_set fresh by simp
  have "distinct (map fst ((items c @ [(k, v)]) @ es))"
    using Cons.prems e by simp
  then have "distinct (map fst (drop (length (items c @ [(k, v)]) - nat (limit c)) (items c @ [(k, v)]) @ es))"
    by (rule distinct_keys_drop_append)
  then have "distinct (map fst (items ?c @ es))" by (simp only: it)
  from Cons.IH[OF this] length_items_set[of k v c]
  have "items (fold (\<lambda>(k, v). LRUCache_set k v) es ?c) =
          drop (length (items ?c @ es) - nat (limit c)) (items ?c @ es)"
    and l: "limit (fold (\<lambda>(k, v). LRUCache_set k v) es ?c) = limit c"
    by simp_all
  then have "items (fold (\<lambda>(k, v). LRUCache_set k v) es ?c) =
          drop (length ((items c @ [(k, v)]) @ es) - nat (limit c)) ((items c @ [(k, v)]) @ es)"
    by (simp only: it drop_tail_append)
  with l e show ?case by simp
qed

lemma hydrate_new:
  assumes "storage_get sto (entriesKey d) = Some raw" and "raw \<noteq> []"
    and "parse raw = Some (serialized_of es)" and "distinct (map fst es)"
  shows "\<exists>h'. get_entries parse sto (new_TerminalPersistedHistory d cfg) =
           (Inr (drop (length es - nat (getHistoryLimit cfg)) es), h')
         \<and> LRUCache_entries (h_entries h') = drop (length es - nat (getHistoryLimit cfg)) es"
proof -
  let ?h = "new_TerminalPersistedHistory d cfg"
  have d: "h_storageDataKey ?h = d" and nr: "\<not> h_isReady ?h"
    by (simp_all add: new_TerminalPersistedHistory_def)
  have e: "items (h_entries ?h) = []" and l: "limit (h_entries ?h) = getHistoryLimit cfg"
    by (simp_all add: new_TerminalPersistedHistory_def LRUCache_new_def)
  from assms(4) e have "distinct (map fst (items (h_entries ?h) @ es))" by simp
  from fold_set_distinct[OF this] e
  have f: "items (fold (\<lambda>(k, v). LRUCache_set k v) es (h_entries ?h)) =
      drop (length es - nat (getHistoryLimit cfg)) es"
    by (simp add: e l)
  from assms(1) have "storage_get sto (entriesKey (h_storageDataKey ?h)) = Some raw"
    by (simp only: d)
  from loadState_serialized[where parse = parse, OF this assms(2,3)]
  have "loadState parse sto ?h =
      (None, ?h\<lparr>h_timestamp := storage_getNumber sto (timestampKey (h_storageDataKey ?h)) 0,
                 h_entries := fold (\<lambda>(k, v). LRUCache_set k v) es (h_entries ?h)\<rparr>)"
    by (simp add: load_entries_serialized)
  with nr f show ?thesis
    by (simp add: get_entries_def ensureUpToDate_fresh LRUCache_entries_def)
qed

lemma get_entries_ready:
  "h_isReady h \<Longrightarrow> \<not> h_isStale h \<Longrightarrow>
     get_entries parse sto h = (Inr (LRUCache_entries (h_entries h)), h)"
  by (simp add: get_entries_def ensureUpToDate_ready unstale)

lemma perform_done:
  assumes "perform parse stringify now c w = (None, h1, sto1)"
  shows "h_isReady h1 \<and> \<not> h_isStale h1
       \<and> storage_get sto1 (entriesKey (h_storageDataKey h1)) =
           Some (stringify (serialized_of (LRUCache_entries (h_entries h1))))"
proof -
  obtain r h0 where u: "ensureUpToDate parse (snd w) (fst w) = (r, h0)"
    by (cases "ensureUpToDate parse (snd w) (fst w)")
  have r: "r = None"
    using assms u by (cases c; cases r) (simp_all add: add_def remove_def clear_def)
  from u r ensureUpToDate_done have rd: "h_isReady h0 \<and> \<not> h_isStale h0" by blast
  have "\<exists>h. saveState stringify now (snd w) h = (h1, sto1)
          \<and> h_isReady h = h_isReady h0 \<and> h_isStale h = h_isStale h0"
  proof (cases c)
    case (Add k v)
    with assms u r
    have "saveState stringify now (snd w) (h0\<lparr>h_entries := LRUCache_set k v (h_entries h0)\<rparr>)
            = (h1, sto1)"
      by (simp add: add_def)
    then show ?thesis by force
  next
    case (Remove k)
    with assms u r
    have "saveState stringify now (snd w) (h0\<lparr>h_entries := LRUCache_delete k (h_entries h0)\<rparr>)
            = (h1, sto1)"
      by (simp add: remove_def)
    then show ?thesis by force
  next
    case Clear
    with assms u r
    have "saveState stringify now (snd w) (h0\<lparr>h_entries := LRUCache_clear (h_entries h0)\<rparr>)
            = (h1, sto1)"
      by (simp add: clear_def)
    then show ?thesis by force
  qed
  then obtain h where h: "saveState stringify now (snd w) h = (h1, sto1)"
    and f: "h_isReady h = h_isReady h0 \<and> h_isStale h = h_isStale h0"
    by blast
  from h have "h1 = fst (saveState stringify now (snd w) h)"
    and "sto1 = snd (saveState stringify now (snd w) h)"
    by simp_all
  with rd f keys_differ[of "h_storageDataKey h"] show ?thesis
    by (simp add: saveState_fst saveState_snd storage_get_def LRUCache_entries_def)
qed

lemma add_done:
  assumes "ensureUpToDate parse (snd w) (fst w) = (None, h1)"
  shows "add parse stringify now key v w =
           (None, h1\<lparr>h_entries := LRUCache_set key v (h_entries h1), h_timestamp := now\<rparr>,
            snd (saveState stringify now (snd w) (h1\<lparr>h_entries := LRUCache_set key v (h_entries h1)\<rparr>)))"
  using assms by (simp add: add_def saveState_def Let_def)

lemma length_filter_present:
  "distinct (map fst xs) \<Longrightarrow> k \<in> fst ` set xs \<Longrightarrow>
     Suc (length (filter (\<lambda>e. fst e \<noteq> k) xs)) = length xs"
proof (induction xs)
  case Nil
  then show ?case by simp
next
  case (Cons x xs)
  show ?case
  proof (cases "fst x = k")
    case True
    with Cons.prems have "k \<notin> fst ` set xs" by simp
    then have "filter (\<lambda>e. fst e \<noteq> k) xs = xs"
      by (auto simp: filter_id_conv)
    with True show ?thesis by simp
  next
    case False
    with Cons show ?thesis by auto
  qed
qed

subsection \<open>The bounded map and the order of the last touches\<close>

lemma keys_last_touches: "fst ` set (last_touches xs) = fst ` set xs"
  by (induction xs) (auto simp: insert_absorb)

lemma distinct_last_touches: "distinct (map fst (last_touches xs))"
  by (induction xs) (auto simp: keys_last_touches)

lemma last_touches_snoc:
  "last_touches (xs @ [(k, v)]) = filter (\<lambda>e. fst e \<noteq> k) (last_touches xs) @ [(k, v)]"
proof (induction xs)
  case Nil
  show ?case by simp
next
  case (Cons x xs)
  show ?case
  proof (cases "fst x = k")
    case True
    with Cons show ?thesis by simp
  next
    case False
    with Cons show ?thesis by (auto simp: image_Un)
  qed
qed

lemma length_filter_distinct:
  "distinct (map fst xs) \<Longrightarrow> length xs \<le> Suc (length (filter (\<lambda>e. fst e \<noteq> k) xs))"
proof (cases "k \<in> fst ` set xs")
  case True
  assume "distinct (map fst xs)"
  from length_filter_present[OF this True] show ?thesis by simp
next
  case False
  then have "filter (\<lambda>e. fst e \<noteq> k) xs = xs" by (auto simp: filter_id_conv)
  then show ?thesis by simp
qed

lemma drop_filter_suffix:
  assumes "distinct (map fst xs)" and "0 < n"
  shows "drop (Suc (length (filter (\<lambda>e. fst e \<noteq> k) (drop (length xs - n) xs))) - n)
           (filter (\<lambda>e. fst e \<noteq> k) (drop (length xs - n) xs))
       = drop (Suc (length (filter (\<lambda>e. fst e \<noteq> k) xs)) - n) (filter (\<lambda>e. fst e \<noteq> k) xs)"
proof (cases "length xs \<le> n")
  case True
  then show ?thesis by simp
next
  case False
  let ?P = "\<lambda>e. fst e \<noteq> k"
  let ?pre = "take (length xs - n) xs" and ?suf = "drop (length xs - n) xs"
  have split: "filter ?P xs = filter ?P ?pre @ filter ?P ?suf"
    by (metis append_take_drop_id filter_append)
  have ls: "length ?suf = n" using False by simp
  from assms(1) have "distinct (map fst ?suf)" by (rule distinct_drop_keys)
  from length_filter_distinct[OF this, of k] ls
  have ge: "n \<le> Suc (length (filter ?P ?suf))" by simp
  have le: "length (filter ?P ?suf) \<le> n" using ls length_filter_le[of ?P ?suf] by simp
  have "drop (Suc (length (filter ?P xs)) - n) (filter ?P xs)
      = drop (Suc (length (filter ?P ?pre) + length (filter ?P ?suf)) - n)
          (filter ?P ?pre @ filter ?P ?suf)"
    by (simp add: split)
  also have "\<dots> = drop (Suc (length (filter ?P ?suf)) - n) (filter ?P ?suf)"
    using ge le by (auto simp: Suc_diff_le)
  finally show ?thesis by simp
qed

lemma set_after_suffix:
  assumes "distinct (map fst t)"
    and "items c = drop (length t - nat (limit c)) t"
  shows "items (LRUCache_set k v c) =
           drop (length (filter (\<lambda>e. fst e \<noteq> k) t @ [(k, v)]) - nat (limit c))
             (filter (\<lambda>e. fst e \<noteq> k) t @ [(k, v)])"
proof (cases "0 < nat (limit c)")
  case False
  then show ?thesis by (simp add: items_set)
next
  case True
  let ?P = "\<lambda>e. fst e \<noteq> k"
  let ?n = "nat (limit c)"
  have a: "Suc (length (filter ?P (items c))) - ?n \<le> length (filter ?P (items c))"
    using True by linarith
  have b: "Suc (length (filter ?P t)) - ?n \<le> length (filter ?P t)"
    using True by linarith
  have "items (LRUCache_set k v c) =
          drop (Suc (length (filter ?P (items c))) - ?n) (filter ?P (items c)) @ [(k, v)]"
    using a by (simp add: items_set)
  also have "\<dots> = drop (Suc (length (filter ?P t)) - ?n) (filter ?P t) @ [(k, v)]"
    unfolding assms(2) using drop_filter_suffix[OF assms(1) True, of k] by simp
  also have "\<dots> = drop (length (filter ?P t @ [(k, v)]) - ?n) (filter ?P t @ [(k, v)])"
    using b by simp
  finally show ?thesis .
qed

lemma fold_set_last_touches:
  "items (fold (\<lambda>(k, v). LRUCache_set k v) xs (LRUCache_new n)) =
     drop (length (last_touches xs) - nat n) (last_touches xs)
   \<and> limit (fold (\<lambda>(k, v). LRUCache_set k v) xs (LRUCache_new n)) = n"
proof (induction xs rule: rev_induct)
  case Nil
  show ?case by (simp add: LRUCache_new_def)
next
  case (snoc x xs)
  obtain k v where x: "x = (k, v)" by (cases x)
  let ?c = "fold (\<lambda>(k, v). LRUCache_set k v) xs (LRUCache_new n)"
  from snoc have i: "items ?c = drop (length (last_touches xs) - nat (limit ?c)) (last_touches xs)"
    and l: "limit ?c = n" by simp_all
  from set_after_suffix[OF distinct_last_touches i, of k v] l
  show ?case by (simp add: x last_touches_snoc)
qed

lemma ensureUpToDate_no_payload:
  assumes "\<not> h_isReady h" and "storage_get sto (entriesKey (h_storageDataKey h)) = None"
  shows "ensureUpToDate parse sto h =
           (None, h\<lparr>h_timestamp := storage_getNumber sto (timestampKey (h_storageDataKey h)) 0,
                     h_isReady := True, h_isStale := False\<rparr>)"
  using assms by (simp add: ensureUpToDate_fresh loadState_def)

lemma run_add_calls:
  "h_isReady h \<or> storage_get sto (entriesKey (h_storageDataKey h)) = None \<Longrightarrow>
     h_entries (fst (run parse stringify (add_calls adds) (h, sto))) =
       fold (\<lambda>(k, v). LRUCache_set k v) (map snd adds) (h_entries h)"
proof (induction adds arbitrary: h sto)
  case Nil
  show ?case by (simp add: add_calls_def)
next
  case (Cons a adds)
  obtain now k v where a: "a = (now, k, v)" by (cases a)
  obtain h1 where u: "ensureUpToDate parse (snd (h, sto)) (fst (h, sto)) = (None, h1)"
    and e: "h_entries h1 = h_entries h"
  proof (cases "h_isReady h")
    case True
    then show ?thesis using that by (simp add: ensureUpToDate_ready)
  next
    case False
    with Cons.prems show ?thesis using that by (simp add: ensureUpToDate_no_payload)
  qed
  let ?r = "add parse stringify now k v (h, sto)"
  from add_done[OF u, of stringify now k v] e
  have h2: "fst (snd ?r) = h1\<lparr>h_entries := LRUCache_set k v (h_entries h), h_timestamp := now\<rparr>"
    by simp
  obtain h' sto' where r: "snd ?r = (h', sto')" by (cases "snd ?r")
  with h2 have h': "h' = h1\<lparr>h_entries := LRUCache_set k v (h_entries h), h_timestamp := now\<rparr>"
    by simp
  with ensureUpToDate_done[OF u] have rd: "h_isReady h'" by simp
  have "h_entries (fst (run parse stringify (add_calls adds) (h', sto'))) =
       fold (\<lambda>(k, v). LRUCache_set k v) (map snd adds) (h_entries h')"
    by (rule Cons.IH) (simp add: rd)
  with h' have "h_entries (fst (run parse stringify (add_calls adds) (snd ?r))) =
       fold (\<lambda>(k, v). LRUCache_set k v) (map snd adds) (LRUCache_set k v (h_entries h))"
    by (simp add: r)
  then show ?case by (simp add: a add_calls_def)
qed

lemma new_add_calls:
  assumes "storage_get sto (entriesKey d) = None"
  shows "LRUCache_entries (h_entries (fst (run parse stringify (add_calls adds)
            (new_TerminalPersistedHistory d cfg, sto)))) =
         drop (length (last_touches (map snd adds)) - nat (getHistoryLimit cfg))
           (last_touches (map snd adds))"
proof -
  let ?h = "new_TerminalPersistedHistory d cfg"
  from assms have "h_isReady ?h \<or> storage_get sto (entriesKey (h_storageDataKey ?h)) = None"
    by (simp add: new_TerminalPersistedHistory_def)
  from run_add_calls[OF this]
  have "h_entries (fst (run parse stringify (add_calls adds) (?h, sto))) =
       fold (\<lambda>(k, v). LRUCache_set k v) (map snd adds) (LRUCache_new (getHistoryLimit cfg))"
    by (simp add: new_TerminalPersistedHistory_def)
  then show ?thesis
    by (simp add: LRUCache_entries_def fold_set_last_touches)
qed

section \<open>The history limit\<close>

lemma getHistoryLimit_number: "getHistoryLimit (JNumber n) = n"
  by (simp add: getHistoryLimit_def)

lemma getHistoryLimit_other: "typeof v \<noteq> ''number'' \<Longrightarrow> getHistoryLimit v = 100"
  by (simp add: getHistoryLimit_def Constants_DefaultHistoryLimit_def)

text \<open>
  C6: whenever the value of the history-limit setting is not of type number (for
  example \<open>null\<close> or a string), the limit of the instance is exactly 100, at
  construction and after a configuration change; when the value is a number, that
  number is the limit.
\<close>

theorem C6_history_limit:
  "(typeof v \<noteq> ''number'' \<longrightarrow>
      limit (h_entries (new_TerminalPersistedHistory d v)) = 100
      \<and> limit (h_entries (onDidChangeConfiguration True v h)) = 100)
   \<and> (\<forall>n. v = JNumber n \<longrightarrow>
      limit (h_entries (new_TerminalPersistedHistory d v)) = n
      \<and> limit (h_entries (onDidChangeConfiguration True v h)) = n)"
  by (simp add: new_TerminalPersistedHistory_def onDidChangeConfiguration_def
      LRUCache_new_def LRUCache_set_limit_def getHistoryLimit_other getHistoryLimit_number)

theorem C6_history_limit_witness:
  "typeof JNull \<noteq> ''number''
   \<and> limit (h_entries (new_TerminalPersistedHistory ''commands'' JNull)) = 100
   \<and> typeof (JString ''50'') \<noteq> ''number''
   \<and> limit (h_entries (onDidChangeConfiguration True (JString ''50'') example_history)) = 100
   \<and> limit (h_entries (new_TerminalPersistedHistory ''commands'' (JNumber 25))) = 25"
proof -
  have n: "typeof JNull \<noteq> ''number''" and s: "typeof (JString ''50'') \<noteq> ''number''"
    by simp_all
  from C6_history_limit[of JNull "''commands''" example_history] n
  have 1: "limit (h_entries (new_TerminalPersistedHistory ''commands'' JNull)) = 100" by blast
  from C6_history_limit[of "JString ''50''" "''commands''" example_history] s
  have 2: "limit (h_entries (onDidChangeConfiguration True (JString ''50'') example_history)) = 100"
    by blast
  from C6_history_limit[of "JNumber 25" "''commands''" example_history]
  have 3: "limit (h_entries (new_TerminalPersistedHistory ''commands'' (JNumber 25))) = 25" by blast
  from n s 1 2 3 show ?thesis by blast
qed

section \<open>Storage change notifications\<close>

text \<open>
  C2: the listener compares the notified key with the bare constant
  \<open>StorageKeys.Timestamp\<close>, not with the instance's own timestamp key (the constant
  followed by a dot and the storage data key). So a notification that carries the
  instance's own timestamp key sets the stale flag, for every storage data key.
\<close>

theorem C2_own_timestamp_key_sets_stale:
  "h_isStale (onDidChangeValue (timestampKey d) h)"
  by (simp add: onDidChangeValue_def timestampKey_def StorageKeys_Timestamp_def)

section \<open>Ensuring the cache is up to date\<close>

text \<open>
  C8: when the stale flag is set, \<open>_ensureUpToDate\<close> on a hydrated instance returns
  the instance with the stale flag cleared and nothing else changed (entries, limit,
  timestamp), whatever the store holds; on an instance not yet hydrated it is exactly
  the first load followed by the two flag updates.
\<close>

theorem C8_stale_flag_only_cleared:
  assumes "h_isStale h"
  shows "(h_isReady h \<longrightarrow> ensureUpToDate parse sto h = (None, h\<lparr>h_isStale := False\<rparr>))
    \<and> (\<not> h_isReady h \<longrightarrow>
         ensureUpToDate parse sto h =
           (case loadState parse sto h of
              (Some e, h1) \<Rightarrow> (Some e, h1)
            | (None, h1) \<Rightarrow> (None, h1\<lparr>h_isReady := True, h_isStale := False\<rparr>)))"
  by (simp add: ensureUpToDate_ready ensureUpToDate_fresh)

theorem C8_stale_flag_only_cleared_witness:
  "h_isStale example_history \<and> h_isReady example_history
   \<and> ensureUpToDate JSON_parse
        (Map.empty(entriesKey ''commands'' \<mapsto> SText ''{}'')) example_history =
      (None,
       \<lparr>h_entries = \<lparr>items = [(''a'', JNumber 1), (''b'', JNumber 2), (''c'', JNumber 3)], limit = 3\<rparr>,
        h_timestamp = 7, h_isReady = True, h_isStale = False, h_storageDataKey = ''commands''\<rparr>)"
proof -
  have s: "h_isStale example_history" and r: "h_isReady example_history"
    by (simp_all add: example_history_def)
  from C8_stale_flag_only_cleared[OF s, of JSON_parse "Map.empty(entriesKey ''commands'' \<mapsto> SText ''{}'')"] r
  have "ensureUpToDate JSON_parse (Map.empty(entriesKey ''commands'' \<mapsto> SText ''{}'')) example_history
          = (None, example_history\<lparr>h_isStale := False\<rparr>)"
    by blast
  with s r show ?thesis by (simp add: example_history_def)
qed

section \<open>Resizing\<close>

text \<open>
  C7: when the configured limit is lowered to \<open>n\<close>, below the current number of
  entries, the configuration listener evicts the least recently used entries and
  leaves exactly the \<open>n\<close> most recently used ones, in their order (none when \<open>n\<close>
  is negative: the count that remains is \<open>nat n\<close>).
\<close>

theorem C7_resize_evicts_lru:
  assumes "n < int (LRUCache_size (h_entries h))"
  shows "LRUCache_entries (h_entries (onDidChangeConfiguration True (JNumber n) h)) =
           drop (LRUCache_size (h_entries h) - nat n) (LRUCache_entries (h_entries h))
       \<and> LRUCache_size (h_entries (onDidChangeConfiguration True (JNumber n) h)) = nat n
       \<and> limit (h_entries (onDidChangeConfiguration True (JNumber n) h)) = n"
proof -
  from assms have "nat n \<le> length (items (h_entries h))"
    by (simp add: LRUCache_size_def)
  then show ?thesis
    by (simp add: onDidChangeConfiguration_def getHistoryLimit_number LRUCache_set_limit_def
        LRUCache_entries_def LRUCache_size_def items_trim)
qed

theorem C7_resize_evicts_lru_witness:
  "1 < int (LRUCache_size (h_entries example_history))
   \<and> LRUCache_entries (h_entries (onDidChangeConfiguration True (JNumber 1) example_history)) =
       [(''c'', JNumber 3)]
   \<and> LRUCache_size (h_entries (onDidChangeConfiguration True (JNumber 1) example_history)) = 1"
proof -
  have b: "1 < int (LRUCache_size (h_entries example_history))"
    by (simp add: example_history_def LRUCache_size_def)
  note t = C7_resize_evicts_lru[OF b]
  from t have "LRUCache_entries (h_entries (onDidChangeConfiguration True (JNumber 1) example_history)) =
      drop (LRUCache_size (h_entries example_history) - nat 1) (LRUCache_entries (h_entries example_history))"
    by blast
  also have "\<dots> = [(''c'', JNumber 3)]"
    by (simp add: example_history_def LRUCache_size_def LRUCache_entries_def)
  finally have e: "LRUCache_entries (h_entries (onDidChangeConfiguration True (JNumber 1) example_history)) =
       [(''c'', JNumber 3)]" .
  from t have "LRUCache_size (h_entries (onDidChangeConfiguration True (JNumber 1) example_history)) = nat 1"
    by blast
  with b e show ?thesis by simp
qed

section \<open>Hydration\<close>

text \<open>
  C5: when the payload under the entries key is absent, empty, or not parseable as JSON,
  reading \<open>entries\<close> on a new instance throws nothing and yields no entries; the
  instance is hydrated and its cache is empty.
\<close>

theorem C5_malformed_payload_hydrates_empty:
  assumes "storage_get sto (entriesKey d) = None
         \<or> storage_get sto (entriesKey d) = Some []
         \<or> (\<exists>raw. storage_get sto (entriesKey d) = Some raw \<and> parse raw = None)"
  shows "\<exists>h'. get_entries parse sto (new_TerminalPersistedHistory d cfg) = (Inr [], h')
              \<and> h_isReady h' \<and> LRUCache_entries (h_entries h') = []"
  using assms
  by (auto simp: get_entries_def ensureUpToDate_def loadState_def new_TerminalPersistedHistory_def
      LRUCache_new_def LRUCache_entries_def Let_def)

theorem C5_malformed_payload_hydrates_empty_witness:
  "storage_get (Map.empty(entriesKey ''commands'' \<mapsto> SText ''not json'')) (entriesKey ''commands'')
     = Some ''not json''
   \<and> JSON_parse ''not json'' = None
   \<and> fst (get_entries JSON_parse (Map.empty(entriesKey ''commands'' \<mapsto> SText ''not json''))
        (new_TerminalPersistedHistory ''commands'' JNull)) = Inr []
   \<and> fst (get_entries JSON_parse (Map.empty(entriesKey ''commands'' \<mapsto> SText ''''))
        (new_TerminalPersistedHistory ''commands'' JNull)) = Inr []
   \<and> fst (get_entries JSON_parse Map.empty (new_TerminalPersistedHistory ''commands'' JNull)) = Inr []"
proof -
  have g: "storage_get (Map.empty(entriesKey ''commands'' \<mapsto> SText ''not json'')) (entriesKey ''commands'')
     = Some ''not json''"
    by (simp add: storage_get_def)
  have p: "JSON_parse ''not json'' = None" by code_simp
  have e: "storage_get (Map.empty(entriesKey ''commands'' \<mapsto> SText '''')) (entriesKey ''commands'')
     = Some []"
    by (simp add: storage_get_def)
  have a: "storage_get Map.empty (entriesKey ''commands'') = None"
    by (simp add: storage_get_def)
  from C5_malformed_payload_hydrates_empty[of "Map.empty(entriesKey ''commands'' \<mapsto> SText ''not json'')"
      "''commands''" JSON_parse JNull] g p
  have 1: "fst (get_entries JSON_parse (Map.empty(entriesKey ''commands'' \<mapsto> SText ''not json''))
        (new_TerminalPersistedHistory ''commands'' JNull)) = Inr []"
    by fastforce
  from C5_malformed_payload_hydrates_empty[of "Map.empty(entriesKey ''commands'' \<mapsto> SText '''')"
      "''commands''" JSON_parse JNull] e
  have 2: "fst (get_entries JSON_parse (Map.empty(entriesKey ''commands'' \<mapsto> SText ''''))
        (new_TerminalPersistedHistory ''commands'' JNull)) = Inr []"
    by fastforce
  from C5_malformed_payload_hydrates_empty[of Map.empty "''commands''" JSON_parse JNull] a
  have 3: "fst (get_entries JSON_parse Map.empty (new_TerminalPersistedHistory ''commands'' JNull)) = Inr []"
    by fastforce
  from g p 1 2 3 show ?thesis by blast
qed

text \<open>
  C10: when the store holds a record of entries with distinct keys, as \<open>_saveState\<close>
  writes them, the first load of a new instance inserts them in the record's order; what
  the instance then holds is the last entries of the record, as many as the limit allows
  (all of them when the record has no more than the limit), so the bound holds right
  after the first load.
\<close>

theorem C10_hydration_keeps_last_entries:
  assumes "storage_get sto (entriesKey d) = Some raw" and "raw \<noteq> []"
    and "parse raw = Some (serialized_of es)" and "distinct (map fst es)"
  shows "fst (get_entries parse sto (new_TerminalPersistedHistory d cfg)) =
           Inr (drop (length es - nat (getHistoryLimit cfg)) es)
       \<and> LRUCache_size (h_entries (snd (get_entries parse sto
             (new_TerminalPersistedHistory d cfg)))) \<le> nat (getHistoryLimit cfg)"
proof -
  from hydrate_new[where parse = parse and cfg = cfg, OF assms(1-4)] obtain h' where
    g: "get_entries parse sto (new_TerminalPersistedHistory d cfg) =
           (Inr (drop (length es - nat (getHistoryLimit cfg)) es), h')"
    and i: "LRUCache_entries (h_entries h') = drop (length es - nat (getHistoryLimit cfg)) es"
    by blast
  from i have "LRUCache_size (h_entries h') \<le> nat (getHistoryLimit cfg)"
    by (simp add: LRUCache_size_def LRUCache_entries_def)
  with g show ?thesis by simp
qed

theorem C10_hydration_keeps_last_entries_witness:
  "storage_get (Map.empty(entriesKey ''commands'' \<mapsto>
        SText (JSON_stringify (serialized_of example_entries)))) (entriesKey ''commands'')
      = Some (JSON_stringify (serialized_of example_entries))
   \<and> JSON_stringify (serialized_of example_entries) \<noteq> []
   \<and> JSON_parse (JSON_stringify (serialized_of example_entries)) = Some (serialized_of example_entries)
   \<and> distinct (map fst example_entries)
   \<and> fst (get_entries JSON_parse
        (Map.empty(entriesKey ''commands'' \<mapsto> SText (JSON_stringify (serialized_of example_entries))))
        (new_TerminalPersistedHistory ''commands'' (JNumber 2)))
      = Inr [(''b'', JNumber 2), (''c'', JNumber 3)]"
proof -
  let ?sto = "Map.empty(entriesKey ''commands'' \<mapsto> SText (JSON_stringify (serialized_of example_entries)))"
  have g: "storage_get ?sto (entriesKey ''commands'') = Some (JSON_stringify (serialized_of example_entries))"
    by (simp add: storage_get_def)
  have n: "JSON_stringify (serialized_of example_entries) \<noteq> []" by code_simp
  have p: "JSON_parse (JSON_stringify (serialized_of example_entries)) = Some (serialized_of example_entries)"
    by code_simp
  have d: "distinct (map fst example_entries)" by (simp add: example_entries_def)
  from C10_hydration_keeps_last_entries[where parse = JSON_parse, OF g n p d]
  have "fst (get_entries JSON_parse ?sto (new_TerminalPersistedHistory ''commands'' (JNumber 2))) =
          Inr (drop (length example_entries - nat (getHistoryLimit (JNumber 2))) example_entries)"
    by blast
  also have "drop (length example_entries - nat (getHistoryLimit (JNumber 2))) example_entries
      = [(''b'', JNumber 2), (''c'', JNumber 3)]"
    by (simp add: example_entries_def getHistoryLimit_number)
  finally show ?thesis using g n p d by blast
qed

section \<open>Mutations\<close>

text \<open>
  Once the up-to-date step of \<open>remove\<close> has completed, a key that is not in the map
  makes no difference: \<open>remove\<close> throws nothing, leaves the entries and their order
  as they are, and persists like any other mutation (the store then holds the
  serialised entries and the timestamp of the call).
\<close>

lemma remove_absent_key:
  assumes "ensureUpToDate parse (snd w) (fst w) = (None, h1)"
    and "key \<notin> fst ` set (LRUCache_entries (h_entries h1))"
  shows "\<exists>h2 sto2. remove parse stringify now key w = (None, h2, sto2)
      \<and> LRUCache_entries (h_entries h2) = LRUCache_entries (h_entries h1)
      \<and> storage_get sto2 (entriesKey (h_storageDataKey h1)) =
          Some (stringify (serialized_of (LRUCache_entries (h_entries h1))))
      \<and> storage_getNumber sto2 (timestampKey (h_storageDataKey h1)) 0 = now"
proof -
  have same: "filter (\<lambda>e. fst e \<noteq> key) (items (h_entries h1)) = items (h_entries h1)"
    using assms(2) by (auto simp: LRUCache_entries_def filter_id_conv)
  let ?h = "h1\<lparr>h_entries := LRUCache_delete key (h_entries h1)\<rparr>"
  have r: "remove parse stringify now key w = (None, saveState stringify now (snd w) ?h)"
    using assms(1) by (simp add: remove_def)
  have e: "LRUCache_entries (h_entries ?h) = LRUCache_entries (h_entries h1)"
    by (simp add: LRUCache_entries_def LRUCache_delete_def same)
  have "remove parse stringify now key w =
          (None, fst (saveState stringify now (snd w) ?h), snd (saveState stringify now (snd w) ?h))"
    using r by simp
  moreover have "LRUCache_entries (h_entries (fst (saveState stringify now (snd w) ?h))) =
      LRUCache_entries (h_entries h1)"
    using e by (simp add: saveState_fst)
  moreover have "storage_get (snd (saveState stringify now (snd w) ?h)) (entriesKey (h_storageDataKey h1)) =
          Some (stringify (serialized_of (LRUCache_entries (h_entries h1))))"
    using e keys_differ[of "h_storageDataKey h1"] by (simp add: saveState_snd storage_get_def)
  moreover have "storage_getNumber (snd (saveState stringify now (snd w) ?h))
      (timestampKey (h_storageDataKey h1)) 0 = now"
    by (simp add: saveState_snd storage_getNumber_def)
  ultimately show ?thesis by blast
qed

lemma remove_absent_key_example:
  "ensureUpToDate JSON_parse Map.empty example_history = (None, example_history\<lparr>h_isStale := False\<rparr>)
   \<and> ''z'' \<notin> fst ` set (LRUCache_entries (h_entries (example_history\<lparr>h_isStale := False\<rparr>)))
   \<and> fst (remove JSON_parse JSON_stringify 9 ''z'' (example_history, Map.empty)) = None
   \<and> LRUCache_entries (h_entries (fst (snd (remove JSON_parse JSON_stringify 9 ''z'' (example_history, Map.empty)))))
       = [(''a'', JNumber 1), (''b'', JNumber 2), (''c'', JNumber 3)]"
proof -
  have u: "ensureUpToDate JSON_parse (snd (example_history, Map.empty)) (fst (example_history, Map.empty))
             = (None, example_history\<lparr>h_isStale := False\<rparr>)"
    by (simp add: ensureUpToDate_def example_history_def)
  have k: "''z'' \<notin> fst ` set (LRUCache_entries (h_entries (example_history\<lparr>h_isStale := False\<rparr>)))"
    by (simp add: example_history_def LRUCache_entries_def)
  from remove_absent_key[OF u k, of JSON_stringify 9]
  obtain h2 sto2 where
    r: "remove JSON_parse JSON_stringify 9 ''z'' (example_history, Map.empty) = (None, h2, sto2)"
    and e: "LRUCache_entries (h_entries h2) = LRUCache_entries (h_entries (example_history\<lparr>h_isStale := False\<rparr>))"
    by blast
  have "LRUCache_entries (h_entries (example_history\<lparr>h_isStale := False\<rparr>))
          = [(''a'', JNumber 1), (''b'', JNumber 2), (''c'', JNumber 3)]"
    by (simp add: example_history_def LRUCache_entries_def)
  with u k r e show ?thesis by simp
qed

text \<open>
  C9: the up-to-date step is where \<open>remove\<close> can throw. \<open>_loadState\<close> catches what
  \<open>JSON.parse\<close> throws and skips a falsy result, but a record that parses to a value
  of another shape is not caught: over the stored text \<open>{}\<close> the loop reads
  \<open>serialized.entries\<close>, which is \<open>undefined\<close> and not iterable. So on a new
  instance over that store, \<open>remove\<close> of a key that is not in the map throws a
  TypeError, the instance stays unhydrated, and nothing is persisted: the entries
  record is as it was and no timestamp is written.
\<close>

theorem C9_remove_throws_on_ill_shaped_record:
  "JSON_parse ''{}'' = Some (JObject [])
   \<and> ''z'' \<notin> fst ` set (LRUCache_entries (h_entries (new_TerminalPersistedHistory ''commands'' JNull)))
   \<and> fst (remove JSON_parse JSON_stringify 9 ''z''
          (new_TerminalPersistedHistory ''commands'' JNull,
           Map.empty(entriesKey ''commands'' \<mapsto> SText ''{}''))) = Some TypeError
   \<and> \<not> h_isReady (fst (snd (remove JSON_parse JSON_stringify 9 ''z''
          (new_TerminalPersistedHistory ''commands'' JNull,
           Map.empty(entriesKey ''commands'' \<mapsto> SText ''{}'')))))
   \<and> snd (snd (remove JSON_parse JSON_stringify 9 ''z''
          (new_TerminalPersistedHistory ''commands'' JNull,
           Map.empty(entriesKey ''commands'' \<mapsto> SText ''{}''))))
         (entriesKey ''commands'') = Some (SText ''{}'')
   \<and> snd (snd (remove JSON_parse JSON_stringify 9 ''z''
          (new_TerminalPersistedHistory ''commands'' JNull,
           Map.empty(entriesKey ''commands'' \<mapsto> SText ''{}''))))
         (timestampKey ''commands'') = None"
  by code_simp

text \<open>
  C1: after every sequence of calls on a new instance (of \<open>add\<close>, and of \<open>remove\<close> and
  \<open>clear\<close> as well), whatever the store holds, the number of entries is at most the
  configured limit: at most \<open>nat\<close> of it, which is the limit itself when the limit
  is not negative, and no entry at all under a negative limit. After a
  sequence of \<open>add\<close> calls on a new instance over a store without a record, the map
  holds the last touches of the most recently touched keys, as many as the limit
  allows, in the order of these touches: what was evicted is what was touched least
  recently. One step of it: when an \<open>add\<close> of a new key finds the map full, the entry
  that leaves is the head of the recency order, and the others keep their order with
  the new entry last. Reading \<open>entries\<close> on a hydrated instance leaves the order as it
  is: only \<open>add\<close> touches.
\<close>

theorem C1_bounded_and_lru_eviction:
  "LRUCache_size (h_entries (fst (run parse stringify calls
       (new_TerminalPersistedHistory d cfg, sto)))) \<le> nat (getHistoryLimit cfg)
   \<and> (0 \<le> getHistoryLimit cfg \<longrightarrow>
        int (LRUCache_size (h_entries (fst (run parse stringify calls
          (new_TerminalPersistedHistory d cfg, sto))))) \<le> getHistoryLimit cfg)
   \<and> (storage_get sto (entriesKey d) = None \<longrightarrow>
        LRUCache_entries (h_entries (fst (run parse stringify (add_calls adds)
            (new_TerminalPersistedHistory d cfg, sto)))) =
          drop (length (last_touches (map snd adds)) - nat (getHistoryLimit cfg))
            (last_touches (map snd adds)))
   \<and> (\<forall>w h1 now key v.
         ensureUpToDate parse (snd w) (fst w) = (None, h1)
         \<and> key \<notin> fst ` set (LRUCache_entries (h_entries h1))
         \<and> int (LRUCache_size (h_entries h1)) = limit (h_entries h1)
       \<longrightarrow> LRUCache_entries (h_entries (fst (snd (add parse stringify now key v w)))) =
             tl (LRUCache_entries (h_entries h1) @ [(key, v)]))
   \<and> (\<forall>h sto'. h_isReady h \<longrightarrow> h_entries (snd (get_entries parse sto' h)) = h_entries h)"
proof (intro conjI allI impI)
  have "well_formed (getHistoryLimit cfg) d
          (fst (run parse stringify calls (new_TerminalPersistedHistory d cfg, sto)))"
    by (rule run_well_formed) (simp add: new_well_formed)
  then show b: "LRUCache_size (h_entries (fst (run parse stringify calls
       (new_TerminalPersistedHistory d cfg, sto)))) \<le> nat (getHistoryLimit cfg)"
    by (simp add: well_formed_def LRUCache_size_def)
  assume "0 \<le> getHistoryLimit cfg"
  with b show "int (LRUCache_size (h_entries (fst (run parse stringify calls
          (new_TerminalPersistedHistory d cfg, sto))))) \<le> getHistoryLimit cfg"
    by linarith
next
  assume "storage_get sto (entriesKey d) = None"
  then show "LRUCache_entries (h_entries (fst (run parse stringify (add_calls adds)
            (new_TerminalPersistedHistory d cfg, sto)))) =
          drop (length (last_touches (map snd adds)) - nat (getHistoryLimit cfg))
            (last_touches (map snd adds))"
    by (rule new_add_calls)
next
  fix w h1 now key v
  assume a: "ensureUpToDate parse (snd w) (fst w) = (None, h1)
          \<and> key \<notin> fst ` set (LRUCache_entries (h_entries h1))
          \<and> int (LRUCache_size (h_entries h1)) = limit (h_entries h1)"
  then have same: "filter (\<lambda>e. fst e \<noteq> key) (items (h_entries h1)) = items (h_entries h1)"
    by (auto simp: LRUCache_entries_def filter_id_conv)
  from a have "int (length (items (h_entries h1))) = limit (h_entries h1)"
    by (simp add: LRUCache_size_def)
  then have full: "Suc (length (items (h_entries h1))) - nat (limit (h_entries h1)) = 1"
    by linarith
  have s: "items (LRUCache_set key v (h_entries h1)) = drop 1 (items (h_entries h1) @ [(key, v)])"
    by (simp only: items_set same full)
  have t: "drop 1 xs = tl xs" for xs :: "(string \<times> js) list"
    by (simp add: drop_Suc)
  from a have "add parse stringify now key v w =
      (None, saveState stringify now (snd w) (h1\<lparr>h_entries := LRUCache_set key v (h_entries h1)\<rparr>))"
    by (simp add: add_def)
  then have "h_entries (fst (snd (add parse stringify now key v w))) = LRUCache_set key v (h_entries h1)"
    by (simp add: saveState_fst)
  then show "LRUCache_entries (h_entries (fst (snd (add parse stringify now key v w)))) =
              tl (LRUCache_entries (h_entries h1) @ [(key, v)])"
    by (simp only: LRUCache_entries_def s t)
next
  fix h :: TerminalPersistedHistory and sto' :: storage
  assume "h_isReady h"
  then show "h_entries (snd (get_entries parse sto' h)) = h_entries h"
    by (simp add: get_entries_def ensureUpToDate_ready)
qed

theorem C1_bounded_and_lru_eviction_witness:
  "LRUCache_size (h_entries (fst (run JSON_parse JSON_stringify
        [(1, Add ''a'' (JNumber 1)), (2, Add ''b'' (JNumber 2)), (3, Add ''c'' (JNumber 3))]
        (new_TerminalPersistedHistory ''commands'' (JNumber 2), Map.empty))))
      \<le> nat (getHistoryLimit (JNumber 2))
   \<and> 0 \<le> getHistoryLimit (JNumber 2)
   \<and> int (LRUCache_size (h_entries (fst (run JSON_parse JSON_stringify
        [(1, Add ''a'' (JNumber 1)), (2, Add ''b'' (JNumber 2)), (3, Add ''c'' (JNumber 3))]
        (new_TerminalPersistedHistory ''commands'' (JNumber 2), Map.empty)))))
      \<le> getHistoryLimit (JNumber 2)
   \<and> storage_get Map.empty (entriesKey ''commands'') = None
   \<and> LRUCache_entries (h_entries (fst (run JSON_parse JSON_stringify
        (add_calls [(1, ''a'', JNumber 1), (2, ''b'', JNumber 2), (3, ''a'', JNumber 5),
                    (4, ''c'', JNumber 3)])
        (new_TerminalPersistedHistory ''commands'' (JNumber 2), Map.empty))))
      = [(''a'', JNumber 5), (''c'', JNumber 3)]
   \<and> ensureUpToDate JSON_parse (snd example_world) (fst example_world) = (None, fst example_world)
   \<and> ''c'' \<notin> fst ` set (LRUCache_entries (h_entries (fst example_world)))
   \<and> int (LRUCache_size (h_entries (fst example_world))) = limit (h_entries (fst example_world))
   \<and> LRUCache_entries (h_entries (fst example_world)) = [(''a'', JNumber 1), (''b'', JNumber 2)]
   \<and> LRUCache_entries (h_entries (fst (snd
        (add JSON_parse JSON_stringify 3 ''c'' (JNumber 3) example_world))))
      = [(''b'', JNumber 2), (''c'', JNumber 3)]
   \<and> h_isReady (fst example_world)
   \<and> h_entries (snd (get_entries JSON_parse (snd example_world) (fst example_world)))
      = h_entries (fst example_world)"
proof -
  note t = C1_bounded_and_lru_eviction[of JSON_parse JSON_stringify _ "''commands''" "JNumber 2" Map.empty]
  have b: "LRUCache_size (h_entries (fst (run JSON_parse JSON_stringify
        [(1, Add ''a'' (JNumber 1)), (2, Add ''b'' (JNumber 2)), (3, Add ''c'' (JNumber 3))]
        (new_TerminalPersistedHistory ''commands'' (JNumber 2), Map.empty))))
      \<le> nat (getHistoryLimit (JNumber 2))"
    using t by blast
  have z: "0 \<le> getHistoryLimit (JNumber 2)" by (simp add: getHistoryLimit_number)
  with t have i: "int (LRUCache_size (h_entries (fst (run JSON_parse JSON_stringify
        [(1, Add ''a'' (JNumber 1)), (2, Add ''b'' (JNumber 2)), (3, Add ''c'' (JNumber 3))]
        (new_TerminalPersistedHistory ''commands'' (JNumber 2), Map.empty)))))
      \<le> getHistoryLimit (JNumber 2)"
    by blast
  have n: "storage_get Map.empty (entriesKey ''commands'') = None"
    by (simp add: storage_get_def)
  let ?adds = "[(1, ''a'', JNumber 1), (2, ''b'', JNumber 2), (3, ''a'', JNumber 5),
                (4, ''c'', JNumber 3)] :: (int \<times> string \<times> js) list"
  from t[of "[]" ?adds] n
  have "LRUCache_entries (h_entries (fst (run JSON_parse JSON_stringify (add_calls ?adds)
        (new_TerminalPersistedHistory ''commands'' (JNumber 2), Map.empty))))
      = drop (length (last_touches (map snd ?adds)) - nat (getHistoryLimit (JNumber 2)))
          (last_touches (map snd ?adds))"
    by blast
  also have "\<dots> = [(''a'', JNumber 5), (''c'', JNumber 3)]"
    by (simp add: getHistoryLimit_number)
  finally have m: "LRUCache_entries (h_entries (fst (run JSON_parse JSON_stringify (add_calls ?adds)
        (new_TerminalPersistedHistory ''commands'' (JNumber 2), Map.empty))))
      = [(''a'', JNumber 5), (''c'', JNumber 3)]" .
  have u: "ensureUpToDate JSON_parse (snd example_world) (fst example_world) = (None, fst example_world)"
    by code_simp
  have k: "''c'' \<notin> fst ` set (LRUCache_entries (h_entries (fst example_world)))"
    by code_simp
  have f: "int (LRUCache_size (h_entries (fst example_world))) = limit (h_entries (fst example_world))"
    by code_simp
  have e: "LRUCache_entries (h_entries (fst example_world)) = [(''a'', JNumber 1), (''b'', JNumber 2)]"
    by code_simp
  have r: "h_isReady (fst example_world)" by code_simp
  from t[of "[]" "[]"] u k f
  have "LRUCache_entries (h_entries (fst (snd
        (add JSON_parse JSON_stringify 3 ''c'' (JNumber 3) example_world))))
      = tl (LRUCache_entries (h_entries (fst example_world)) @ [(''c'', JNumber 3)])"
    by blast
  then have a: "LRUCache_entries (h_entries (fst (snd
        (add JSON_parse JSON_stringify 3 ''c'' (JNumber 3) example_world))))
      = [(''b'', JNumber 2), (''c'', JNumber 3)]"
    by (simp only: e) simp
  from t[of "[]" "[]"] r
  have g: "h_entries (snd (get_entries JSON_parse (snd example_world) (fst example_world)))
      = h_entries (fst example_world)"
    by blast
  from b z i n m u k f e a r g show ?thesis by blast
qed

text \<open>
  C3, as amended: when the configured limit is at least 1, at any point a sequence of
  calls on a new instance reaches, an \<open>add(k, v)\<close> whose up-to-date step completes
  returns, and \<open>entries\<close> then yields a sequence that ends with \<open>(k, v)\<close>: the pair is
  there, in the most-recently-used position. When \<open>k\<close> was in the map already (the
  \<open>add\<close> is a subsequent one for the same key), the other entries keep their order,
  the old value is gone, and the number of entries is the same.
\<close>

theorem C3_add_then_entries:
  assumes "1 \<le> getHistoryLimit cfg"
    and "w = run parse stringify calls (new_TerminalPersistedHistory d cfg, sto)"
    and "ensureUpToDate parse (snd w) (fst w) = (None, h1)"
  shows "fst (add parse stringify now key v w) = None
    \<and> (\<exists>es. fst (get_entries parse (snd (snd (add parse stringify now key v w)))
                 (fst (snd (add parse stringify now key v w)))) = Inr (es @ [(key, v)]))
    \<and> (key \<in> fst ` set (LRUCache_entries (h_entries h1)) \<longrightarrow>
          LRUCache_entries (h_entries (fst (snd (add parse stringify now key v w)))) =
            filter (\<lambda>e. fst e \<noteq> key) (LRUCache_entries (h_entries h1)) @ [(key, v)]
          \<and> LRUCache_size (h_entries (fst (snd (add parse stringify now key v w)))) =
              LRUCache_size (h_entries h1))"
proof -
  let ?r = "add parse stringify now key v w"
  let ?ys = "filter (\<lambda>e. fst e \<noteq> key) (items (h_entries h1))"
  let ?n = "Suc (length ?ys) - nat (limit (h_entries h1))"
  let ?c = "LRUCache_set key v (h_entries h1)"
  have "well_formed (getHistoryLimit cfg) d (fst w)"
    unfolding assms(2) by (rule run_well_formed) (simp add: new_well_formed)
  from ensureUpToDate_well_formed[OF assms(3) this]
  have lim: "limit (h_entries h1) = getHistoryLimit cfg"
    and len: "length (items (h_entries h1)) \<le> nat (getHistoryLimit cfg)"
    and dis: "distinct (map fst (items (h_entries h1)))"
    by (simp_all add: well_formed_def)
  from ensureUpToDate_done[OF assms(3)] have rd: "h_isReady h1" "\<not> h_isStale h1" by simp_all
  from add_done[OF assms(3), of stringify now key v]
  have ok: "fst ?r = None"
    and h: "fst (snd ?r) = h1\<lparr>h_entries := ?c, h_timestamp := now\<rparr>"
    by simp_all
  from lim assms(1) have n: "?n \<le> length ?ys" by linarith
  then have i: "items ?c = drop ?n ?ys @ [(key, v)]"
    by (simp add: items_set)
  from h rd have rd1: "h_isReady (fst (snd ?r))" "\<not> h_isStale (fst (snd ?r))" by simp_all
  from h i have e: "LRUCache_entries (h_entries (fst (snd ?r))) = drop ?n ?ys @ [(key, v)]"
    by (simp add: LRUCache_entries_def)
  with get_entries_ready[OF rd1, of parse "snd (snd ?r)"]
  have g: "\<exists>es. fst (get_entries parse (snd (snd ?r)) (fst (snd ?r))) = Inr (es @ [(key, v)])"
    by simp
  have p: "LRUCache_entries (h_entries (fst (snd ?r))) =
            filter (\<lambda>e. fst e \<noteq> key) (LRUCache_entries (h_entries h1)) @ [(key, v)]
          \<and> LRUCache_size (h_entries (fst (snd ?r))) = LRUCache_size (h_entries h1)"
    if "key \<in> fst ` set (LRUCache_entries (h_entries h1))"
  proof -
    from that have "key \<in> fst ` set (items (h_entries h1))" by (simp add: LRUCache_entries_def)
    from length_filter_present[OF dis this] have s: "Suc (length ?ys) = length (items (h_entries h1))" .
    with len lim have "?n = 0" by simp
    with e s show ?thesis by (simp add: LRUCache_entries_def LRUCache_size_def)
  qed
  from ok g p show ?thesis by blast
qed

theorem C3_add_then_entries_witness:
  "1 \<le> getHistoryLimit (JNumber 2)
   \<and> ensureUpToDate JSON_parse (snd example_world) (fst example_world) = (None, fst example_world)
   \<and> ''a'' \<in> fst ` set (LRUCache_entries (h_entries (fst example_world)))
   \<and> LRUCache_entries (h_entries (fst example_world)) = [(''a'', JNumber 1), (''b'', JNumber 2)]
   \<and> fst (add JSON_parse JSON_stringify 3 ''a'' (JNumber 9) example_world) = None
   \<and> fst (get_entries JSON_parse
        (snd (snd (add JSON_parse JSON_stringify 3 ''a'' (JNumber 9) example_world)))
        (fst (snd (add JSON_parse JSON_stringify 3 ''a'' (JNumber 9) example_world))))
      = Inr [(''b'', JNumber 2), (''a'', JNumber 9)]
   \<and> LRUCache_entries (h_entries (fst (snd
        (add JSON_parse JSON_stringify 3 ''a'' (JNumber 9) example_world))))
      = [(''b'', JNumber 2), (''a'', JNumber 9)]"
proof -
  let ?r = "add JSON_parse JSON_stringify 3 ''a'' (JNumber 9) example_world"
  have l: "1 \<le> getHistoryLimit (JNumber 2)" by (simp add: getHistoryLimit_number)
  have u: "ensureUpToDate JSON_parse (snd example_world) (fst example_world) = (None, fst example_world)"
    by code_simp
  have k: "''a'' \<in> fst ` set (LRUCache_entries (h_entries (fst example_world)))" by code_simp
  have e: "LRUCache_entries (h_entries (fst example_world)) = [(''a'', JNumber 1), (''b'', JNumber 2)]"
    by code_simp
  have g: "fst (get_entries JSON_parse (snd (snd ?r)) (fst (snd ?r)))
      = Inr [(''b'', JNumber 2), (''a'', JNumber 9)]"
    by code_simp
  note t = C3_add_then_entries[OF l example_world_def u, where now = 3 and key = "''a''" and v = "JNumber 9"]
  from t have ok: "fst ?r = None" by blast
  from t k have "LRUCache_entries (h_entries (fst (snd ?r))) =
      filter (\<lambda>e. fst e \<noteq> ''a'') (LRUCache_entries (h_entries (fst example_world))) @ [(''a'', JNumber 9)]"
    by blast
  then have m: "LRUCache_entries (h_entries (fst (snd ?r))) = [(''b'', JNumber 2), (''a'', JNumber 9)]"
    by (simp only: e) simp
  from l u k e ok g m show ?thesis by blast
qed

text \<open>Under the limit 0 the claim fails as stated: \<open>add("a", 1)\<close> returns and
  \<open>entries\<close> is empty.\<close>

theorem C3_limit_zero_counterexample:
  "fst (add JSON_parse JSON_stringify 1 ''a'' (JNumber 1)
          (new_TerminalPersistedHistory ''commands'' (JNumber 0), Map.empty)) = None
   \<and> fst (get_entries JSON_parse
        (snd (snd (add JSON_parse JSON_stringify 1 ''a'' (JNumber 1)
          (new_TerminalPersistedHistory ''commands'' (JNumber 0), Map.empty))))
        (fst (snd (add JSON_parse JSON_stringify 1 ''a'' (JNumber 1)
          (new_TerminalPersistedHistory ''commands'' (JNumber 0), Map.empty))))) = Inr []"
  by code_simp

section \<open>Round trip through the store\<close>

text \<open>
  C4: after a sequence of mutations on a new instance, the last of which returns, a
  second new instance over the same storage data key, the same configuration and the
  store as the mutations left it yields, on reading \<open>entries\<close>, exactly the entries of
  the first instance in the same order. \<open>JSON.parse\<close> is assumed to read back what
  \<open>JSON.stringify\<close> wrote for the saved record, and that text not to be empty.
\<close>

theorem C4_round_trip:
  assumes "perform parse stringify now c
             (run parse stringify calls (new_TerminalPersistedHistory d cfg, sto)) = (None, h1, sto1)"
    and "parse (stringify (serialized_of (LRUCache_entries (h_entries h1)))) =
           Some (serialized_of (LRUCache_entries (h_entries h1)))"
    and "stringify (serialized_of (LRUCache_entries (h_entries h1))) \<noteq> []"
  shows "fst (get_entries parse sto1 (new_TerminalPersistedHistory d cfg)) =
           Inr (LRUCache_entries (h_entries h1))
       \<and> fst (get_entries parse sto1 h1) = Inr (LRUCache_entries (h_entries h1))"
proof -
  let ?w = "run parse stringify calls (new_TerminalPersistedHistory d cfg, sto)"
  have "well_formed (getHistoryLimit cfg) d (fst ?w)"
    by (rule run_well_formed) (simp add: new_well_formed)
  then have "well_formed (getHistoryLimit cfg) d (fst (snd (perform parse stringify now c ?w)))"
    by (rule perform_well_formed)
  with assms(1) have wf: "well_formed (getHistoryLimit cfg) d h1" by simp
  from perform_done[OF assms(1)] have rd: "h_isReady h1" "\<not> h_isStale h1"
    and st: "storage_get sto1 (entriesKey (h_storageDataKey h1)) =
           Some (stringify (serialized_of (LRUCache_entries (h_entries h1))))"
    by simp_all
  from wf have k: "h_storageDataKey h1 = d" and dk: "distinct (map fst (LRUCache_entries (h_entries h1)))"
    and le: "length (LRUCache_entries (h_entries h1)) \<le> nat (getHistoryLimit cfg)"
    by (simp_all add: well_formed_def LRUCache_entries_def)
  from st k have "storage_get sto1 (entriesKey d) =
           Some (stringify (serialized_of (LRUCache_entries (h_entries h1))))" by simp
  from hydrate_new[where parse = parse and cfg = cfg, OF this assms(3) assms(2) dk] le
  have "fst (get_entries parse sto1 (new_TerminalPersistedHistory d cfg)) =
           Inr (LRUCache_entries (h_entries h1))"
    by auto
  with rd show ?thesis by (simp add: get_entries_ready)
qed

theorem C4_round_trip_witness:
  "fst (perform JSON_parse JSON_stringify 2 (Add ''b'' (JNumber 2))
          (run JSON_parse JSON_stringify [(1, Add ''a'' (JNumber 1))]
             (new_TerminalPersistedHistory ''commands'' JNull, Map.empty))) = None
   \<and> JSON_parse (JSON_stringify (serialized_of [(''a'', JNumber 1), (''b'', JNumber 2)])) =
        Some (serialized_of [(''a'', JNumber 1), (''b'', JNumber 2)])
   \<and> JSON_stringify (serialized_of [(''a'', JNumber 1), (''b'', JNumber 2)]) \<noteq> []
   \<and> fst (get_entries JSON_parse
        (snd (snd (perform JSON_parse JSON_stringify 2 (Add ''b'' (JNumber 2))
          (run JSON_parse JSON_stringify [(1, Add ''a'' (JNumber 1))]
             (new_TerminalPersistedHistory ''commands'' JNull, Map.empty)))))
        (new_TerminalPersistedHistory ''commands'' JNull))
      = Inr [(''a'', JNumber 1), (''b'', JNumber 2)]"
proof -
  let ?r = "perform JSON_parse JSON_stringify 2 (Add ''b'' (JNumber 2))
          (run JSON_parse JSON_stringify [(1, Add ''a'' (JNumber 1))]
             (new_TerminalPersistedHistory ''commands'' JNull, Map.empty))"
  have ok: "fst ?r = None" by code_simp
  have es: "LRUCache_entries (h_entries (fst (snd ?r))) = [(''a'', JNumber 1), (''b'', JNumber 2)]"
    by code_simp
  have p: "JSON_parse (JSON_stringify (serialized_of [(''a'', JNumber 1), (''b'', JNumber 2)])) =
        Some (serialized_of [(''a'', JNumber 1), (''b'', JNumber 2)])"
    by code_simp
  have n: "JSON_stringify (serialized_of [(''a'', JNumber 1), (''b'', JNumber 2)]) \<noteq> []"
    by code_simp
  from ok have r: "?r = (None, fst (snd ?r), snd (snd ?r))"
    by (metis prod.collapse)
  from C4_round_trip[where parse = JSON_parse and stringify = JSON_stringify, OF r] p n
  have "fst (get_entries JSON_parse (snd (snd ?r)) (new_TerminalPersistedHistory ''commands'' JNull))
          = Inr (LRUCache_entries (h_entries (fst (snd ?r))))"
    by (simp only: es) blast
  with ok p n show ?thesis by (simp only: es) blast
qed

end
